theory Spec2Isabelle
  imports Complex_Main "HOL-Library.Multiset" "HOL-Library.Product_Lexorder"
begin

section \<open>JavaScript values as the dashboard reads them\<close>

text \<open>
  The dashboard (\<^verbatim>\<open>Dashboard.jsx\<close>) receives its events as parsed JSON and reads their
  properties without a declared shape. A property value is modelled as a JSON primitive;
  a property that the record does not have reads as \<open>JUndefined\<close>, as in JavaScript.
  A number is carried as its decimal rendering (what \<^verbatim>\<open>Number.prototype.toString\<close>
  gives for it): the aggregation observes a number only through a template literal and
  through truthiness.
\<close>

datatype jsval = JUndefined | JNull | JBool bool | JNum string | JStr string

text \<open>The conversion a template literal \<^verbatim>\<open>`${v}`\<close> applies to a value.\<close>

fun toString :: "jsval \<Rightarrow> string" where
  "toString JUndefined = ''undefined''"
| "toString JNull = ''null''"
| "toString (JBool b) = (if b then ''true'' else ''false'')"
| "toString (JNum n) = n"
| "toString (JStr s) = s"

text \<open>The conversion the condition of \<^verbatim>\<open>c ? x : y\<close> applies to a value.\<close>

fun truthy :: "jsval \<Rightarrow> bool" where
  "truthy JUndefined = False"
| "truthy JNull = False"
| "truthy (JBool b) = b"
| "truthy (JNum n) = (n \<noteq> ''0'' \<and> n \<noteq> ''NaN'')"
| "truthy (JStr s) = (s \<noteq> [])"

text \<open>
  A \<^verbatim>\<open>Date\<close> object: either an Invalid Date (its time value is NaN) or a time value in
  milliseconds since the epoch.
\<close>

datatype jsdate = InvalidDate | DateAt int

text \<open>
  The \<open>timestamp\<close> property is held as the instant its text denotes, \<open>None\<close> when the
  record has no timestamp or its text is not a date; \<^verbatim>\<open>new Date(e.timestamp)\<close> is then
  an Invalid Date.
\<close>

fun newDate :: "int option \<Rightarrow> jsdate" where
  "newDate None = InvalidDate"
| "newDate (Some t) = DateAt t"

text \<open>
  \<^verbatim>\<open>b.time - a.time\<close> on two dates: the difference of the time values, NaN (\<open>None\<close>)
  as soon as one date is invalid. The difference of two time values, computed in
  double precision, has the sign of the exact difference, which is all a comparator's
  caller reads.
\<close>

fun dateSub :: "jsdate \<Rightarrow> jsdate \<Rightarrow> int option" where
  "dateSub (DateAt x) (DateAt y) = Some (x - y)"
| "dateSub _ _ = None"

text \<open>\<^verbatim>\<open>x - y\<close> on two table entries; a missing entry is \<^verbatim>\<open>undefined\<close> and gives NaN.\<close>

fun numSub :: "int option \<Rightarrow> int option \<Rightarrow> int option" where
  "numSub (Some x) (Some y) = Some (x - y)"
| "numSub _ _ = None"

section \<open>Events and alerts\<close>

text \<open>
  One record type serves the three feeds (seismic events, flood alerts, heat alerts):
  the code reads whatever property it needs from whatever object it is given.
\<close>

record event =
  event_id :: jsval
  risk_level :: jsval
  timestamp :: "int option"
  latitude :: jsval
  longitude :: jsval
  magnitude :: jsval
  depth :: jsval
  location :: jsval
  region :: jsval
  evacuation_advised :: jsval
  water_level :: jsval
  temperature :: jsval
  feels_like :: jsval

text \<open>The object literal pushed for each event that passes the filter.\<close>

record alert =
  type :: string
  level :: jsval
  title :: string
  alert_location :: jsval
  time :: jsdate
  details :: string

text \<open>The degree sign of the heat alert's text (code unit U+00B0).\<close>

definition degree :: string where
  "degree = [CHR 0xB0]"

text \<open>\<^verbatim>\<open>e.risk_level === "high" || e.risk_level === "critical"\<close>\<close>

definition highPriority :: "event \<Rightarrow> bool" where
  "highPriority e = (risk_level e = JStr ''high'' \<or> risk_level e = JStr ''critical'')"

definition seismicAlert :: "event \<Rightarrow> alert" where
  "seismicAlert e =
     \<lparr> type = ''seismic'',
       level = risk_level e,
       title = ''M'' @ toString (magnitude e) @ '' Earthquake'',
       alert_location = location e,
       time = newDate (timestamp e),
       details = ''Depth: '' @ toString (depth e) @ ''km'' \<rparr>"

definition floodAlert :: "event \<Rightarrow> alert" where
  "floodAlert a =
     \<lparr> type = ''flood'',
       level = risk_level a,
       title = ''Flood Warning'',
       alert_location = region a,
       time = newDate (timestamp a),
       details = (if truthy (evacuation_advised a) then ''Evacuation Advised''
                  else ''Water Level: '' @ toString (water_level a) @ ''m'') \<rparr>"

definition heatAlert :: "event \<Rightarrow> alert" where
  "heatAlert a =
     \<lparr> type = ''heat'',
       level = risk_level a,
       title = ''Heat Wave Alert'',
       alert_location = region a,
       time = newDate (timestamp a),
       details = toString (temperature a) @ degree @ ''C (Feels like ''
                 @ toString (feels_like a) @ degree @ ''C)'' \<rparr>"

text \<open>The bodies of the three \<^verbatim>\<open>forEach\<close> callbacks: push, or leave the array as it is.\<close>

definition pushSeismic :: "event \<Rightarrow> alert list \<Rightarrow> alert list" where
  "pushSeismic e alerts = (if highPriority e then alerts @ [seismicAlert e] else alerts)"

definition pushFlood :: "event \<Rightarrow> alert list \<Rightarrow> alert list" where
  "pushFlood a alerts = (if highPriority a then alerts @ [floodAlert a] else alerts)"

definition pushHeat :: "event \<Rightarrow> alert list \<Rightarrow> alert list" where
  "pushHeat a alerts = (if highPriority a then alerts @ [heatAlert a] else alerts)"

section \<open>The comparator and the sort\<close>

text \<open>
  \<^verbatim>\<open>const levelOrder = { critical: 0, high: 1, moderate: 2, low: 3 }\<close>, read with
  \<^verbatim>\<open>levelOrder[a.level]\<close>: the key is the level converted to a string, and a key
  outside the table reads as \<^verbatim>\<open>undefined\<close> (\<open>None\<close>).
\<close>

definition levelOrder :: "string \<Rightarrow> int option" where
  "levelOrder k =
     (if k = ''critical'' then Some 0
      else if k = ''high'' then Some 1
      else if k = ''moderate'' then Some 2
      else if k = ''low'' then Some 3
      else None)"

definition severityRank :: "alert \<Rightarrow> int option" where
  "severityRank a = levelOrder (toString (level a))"

text \<open>The comparator given to \<^verbatim>\<open>sort\<close>; \<open>None\<close> is a NaN result.\<close>

definition compareAlerts :: "alert \<Rightarrow> alert \<Rightarrow> int option" where
  "compareAlerts a b =
     (if severityRank a \<noteq> severityRank b
      then numSub (severityRank a) (severityRank b)
      else dateSub (time b) (time a))"

text \<open>
  \<^verbatim>\<open>alerts.sort(...)\<close> is the engine's sort. It reads a comparator result that is
  NaN as \<open>+0\<close> (\<open>sortCompare\<close>). For a consistent comparator the language fixes the
  result: the stable sort. Where an Invalid Date makes the comparator inconsistent the
  order is left to the engine, so the sort is modelled as V8 (Chrome, Node) runs it on
  an array of fewer than 64 elements: the longest run at the start of the array is
  found, reversed when it is strictly descending, and each later element is put into
  the sorted part by binary search. A longer array is cut into such runs, which are
  merged; for a consistent comparator that gives the same list.
\<close>

definition sortCompare :: "('a \<Rightarrow> 'a \<Rightarrow> int option) \<Rightarrow> 'a \<Rightarrow> 'a \<Rightarrow> int" where
  "sortCompare cmp x y = (case cmp x y of None \<Rightarrow> 0 | Some v \<Rightarrow> v)"

text \<open>
  The loop of \<^verbatim>\<open>CountAndMakeRun\<close>: how many elements after \<open>previousElement\<close> continue
  the run.
\<close>

fun runEnd :: "('a \<Rightarrow> 'a \<Rightarrow> int option) \<Rightarrow> bool \<Rightarrow> 'a \<Rightarrow> 'a list \<Rightarrow> nat" where
  "runEnd cmp isDescending previousElement [] = 0"
| "runEnd cmp isDescending previousElement (currentElement # rest) =
     (let order = sortCompare cmp currentElement previousElement in
      if (if isDescending then 0 \<le> order else order < 0) then 0
      else Suc (runEnd cmp isDescending currentElement rest))"

text \<open>
  \<^verbatim>\<open>CountAndMakeRun\<close>: the run at the start of the array, made ascending, and the
  elements after it.
\<close>

definition countAndMakeRun ::
  "('a \<Rightarrow> 'a \<Rightarrow> int option) \<Rightarrow> 'a list \<Rightarrow> 'a list \<times> 'a list" where
  "countAndMakeRun cmp workArray =
     (case workArray of
        [] \<Rightarrow> ([], [])
      | [x] \<Rightarrow> ([x], [])
      | elementHigh # elementLow # rest \<Rightarrow>
          (let isDescending = (sortCompare cmp elementLow elementHigh < 0);
               runLength = 2 + runEnd cmp isDescending elementLow rest;
               run = take runLength workArray
           in (if isDescending then rev run else run, drop runLength workArray)))"

text \<open>
  The binary search of \<^verbatim>\<open>BinaryInsertionSort\<close>: where \<open>pivot\<close> belongs among the
  elements \<open>left ..< right\<close> of the sorted part. It is called with
  \<open>right \<le> length workArray\<close>, so that \<open>mid\<close> is an index of the array.
\<close>

function binarySearch ::
  "('a \<Rightarrow> 'a \<Rightarrow> int option) \<Rightarrow> 'a \<Rightarrow> 'a list \<Rightarrow> nat \<Rightarrow> nat \<Rightarrow> nat" where
  "binarySearch cmp pivot workArray left right =
     (if left < right
      then (let mid = left + (right - left) div 2 in
            if sortCompare cmp pivot (workArray ! mid) < 0
            then binarySearch cmp pivot workArray left mid
            else binarySearch cmp pivot workArray (mid + 1) right)
      else left)"
  by pat_completeness auto
termination
  by (relation "measure (\<lambda>(cmp, pivot, workArray, left, right). right - left)") auto

declare binarySearch.simps [simp del]

text \<open>\<^verbatim>\<open>BinaryInsertionSort\<close>: each element after the run is put where it belongs.\<close>

fun binaryInsertionSort ::
  "('a \<Rightarrow> 'a \<Rightarrow> int option) \<Rightarrow> 'a list \<Rightarrow> 'a list \<Rightarrow> 'a list" where
  "binaryInsertionSort cmp run [] = run"
| "binaryInsertionSort cmp run (pivot # rest) =
     (let left = binarySearch cmp pivot run 0 (length run) in
      binaryInsertionSort cmp (take left run @ pivot # drop left run) rest)"

definition arraySort :: "('a \<Rightarrow> 'a \<Rightarrow> int option) \<Rightarrow> 'a list \<Rightarrow> 'a list" where
  "arraySort cmp xs =
     (if length xs < 2 then xs
      else (case countAndMakeRun cmp xs of
              (run, rest) \<Rightarrow> binaryInsertionSort cmp run rest))"

section \<open>The aggregation\<close>

text \<open>
  \<open>allAlerts\<close> is the memoised computation of the dashboard, the operation the
  specification calls \<open>aggregate\<close>: three \<^verbatim>\<open>forEach\<close> loops push onto a fresh array,
  which is then sorted.
\<close>

definition collectAlerts :: "event list \<Rightarrow> event list \<Rightarrow> event list \<Rightarrow> alert list" where
  "collectAlerts seismicEvents floodAlerts heatAlerts =
     fold pushHeat heatAlerts (fold pushFlood floodAlerts (fold pushSeismic seismicEvents []))"

definition allAlerts :: "event list \<Rightarrow> event list \<Rightarrow> event list \<Rightarrow> alert list" where
  "allAlerts seismicEvents floodAlerts heatAlerts =
     arraySort compareAlerts (collectAlerts seismicEvents floodAlerts heatAlerts)"

section \<open>The aggregation on a heap of arrays\<close>

text \<open>
  The same computation with the arrays held in a heap, an address being an index into
  the list of cells: \<^verbatim>\<open>const alerts = []\<close> allocates a cell, \<^verbatim>\<open>alerts.push\<close> and
  \<^verbatim>\<open>alerts.sort\<close> update the cell in place, and each \<^verbatim>\<open>forEach\<close> reads its array
  from the heap when it starts. \<open>None\<close> is the \<^verbatim>\<open>TypeError\<close> of calling \<^verbatim>\<open>forEach\<close>
  on something that is not an array of events.
\<close>

datatype cell = EventArray "event list" | AlertArray "alert list"

type_synonym heap = "cell list"

definition readEvents :: "heap \<Rightarrow> nat \<Rightarrow> event list option" where
  "readEvents h p =
     (if p < length h
      then (case h ! p of EventArray es \<Rightarrow> Some es | AlertArray _ \<Rightarrow> None)
      else None)"

definition readAlerts :: "heap \<Rightarrow> nat \<Rightarrow> alert list option" where
  "readAlerts h p =
     (if p < length h
      then (case h ! p of AlertArray xs \<Rightarrow> Some xs | EventArray _ \<Rightarrow> None)
      else None)"

definition pushAt :: "nat \<Rightarrow> alert \<Rightarrow> heap \<Rightarrow> heap" where
  "pushAt p x h =
     (case readAlerts h p of Some xs \<Rightarrow> h[p := AlertArray (xs @ [x])] | None \<Rightarrow> h)"

definition sortAt :: "nat \<Rightarrow> heap \<Rightarrow> heap" where
  "sortAt p h =
     (case readAlerts h p of
        Some xs \<Rightarrow> h[p := AlertArray (arraySort compareAlerts xs)]
      | None \<Rightarrow> h)"

definition pushSeismicAt :: "nat \<Rightarrow> event \<Rightarrow> heap \<Rightarrow> heap" where
  "pushSeismicAt p e h = (if highPriority e then pushAt p (seismicAlert e) h else h)"

definition pushFloodAt :: "nat \<Rightarrow> event \<Rightarrow> heap \<Rightarrow> heap" where
  "pushFloodAt p a h = (if highPriority a then pushAt p (floodAlert a) h else h)"

definition pushHeatAt :: "nat \<Rightarrow> event \<Rightarrow> heap \<Rightarrow> heap" where
  "pushHeatAt p a h = (if highPriority a then pushAt p (heatAlert a) h else h)"

definition allAlertsOnHeap :: "heap \<Rightarrow> nat \<Rightarrow> nat \<Rightarrow> nat \<Rightarrow> (nat \<times> heap) option" where
  "allAlertsOnHeap h seismicEvents floodAlerts heatAlerts =
     (let alerts = length h; h0 = h @ [AlertArray []] in
      case readEvents h0 seismicEvents of
        None \<Rightarrow> None
      | Some es \<Rightarrow>
          (let h1 = fold (pushSeismicAt alerts) es h0 in
           case readEvents h1 floodAlerts of
             None \<Rightarrow> None
           | Some fs \<Rightarrow>
               (let h2 = fold (pushFloodAt alerts) fs h1 in
                case readEvents h2 heatAlerts of
                  None \<Rightarrow> None
                | Some hs \<Rightarrow>
                    (let h3 = fold (pushHeatAt alerts) hs h2 in
                     Some (alerts, sortAt alerts h3)))))"

section \<open>The order and the records the specification speaks of\<close>

text \<open>
  \<^verbatim>\<open>x <= y\<close> on two ranks and \<^verbatim>\<open>x >= y\<close> on two dates, as JavaScript evaluates
  them: a comparison with \<^verbatim>\<open>undefined\<close> or with an Invalid Date is false.
\<close>

fun numLe :: "int option \<Rightarrow> int option \<Rightarrow> bool" where
  "numLe (Some x) (Some y) = (x \<le> y)"
| "numLe _ _ = False"

fun dateGe :: "jsdate \<Rightarrow> jsdate \<Rightarrow> bool" where
  "dateGe (DateAt x) (DateAt y) = (y \<le> x)"
| "dateGe _ _ = False"

text \<open>
  Alert \<open>a\<close> may stand before alert \<open>b\<close>: its rank is not greater, and at equal rank
  it is not older.
\<close>

definition inOrder :: "alert \<Rightarrow> alert \<Rightarrow> bool" where
  "inOrder a b =
     (numLe (severityRank a) (severityRank b)
      \<and> (severityRank a = severityRank b \<longrightarrow> dateGe (time a) (time b)))"

text \<open>A malformed record: severity, timestamp or a coordinate is missing.\<close>

definition malformed :: "event \<Rightarrow> bool" where
  "malformed e =
     (risk_level e = JUndefined \<or> timestamp e = None
      \<or> latitude e = JUndefined \<or> longitude e = JUndefined)"

text \<open>The alerts of one rank and one time, in the order they stand in a list.\<close>

definition tied :: "int option \<Rightarrow> jsdate \<Rightarrow> alert list \<Rightarrow> alert list" where
  "tied r t xs = filter (\<lambda>a. severityRank a = r \<and> time a = t) xs"

text \<open>
  An alert of a high or critical event with a valid date, and its sort key: the rank,
  then the time negated, compared lexicographically.
\<close>

definition comparable :: "alert \<Rightarrow> bool" where
  "comparable a =
     ((level a = JStr ''high'' \<or> level a = JStr ''critical'') \<and> time a \<noteq> InvalidDate)"

definition alertKey :: "alert \<Rightarrow> int \<times> int" where
  "alertKey a =
     ((case severityRank a of Some r \<Rightarrow> r | None \<Rightarrow> 0),
      (case time a of DateAt t \<Rightarrow> - t | InvalidDate \<Rightarrow> 0))"

section \<open>Sample records\<close>

definition emptyObject :: event where
  "emptyObject =
     \<lparr> event_id = JUndefined, risk_level = JUndefined, timestamp = None,
       latitude = JUndefined, longitude = JUndefined, magnitude = JUndefined,
       depth = JUndefined, location = JUndefined, region = JUndefined,
       evacuation_advised = JUndefined, water_level = JUndefined,
       temperature = JUndefined, feels_like = JUndefined \<rparr>"

definition quake :: event where
  "quake = emptyObject
     \<lparr> event_id := JStr ''eq-1'', risk_level := JStr ''critical'', timestamp := Some 1000,
       latitude := JNum ''42.8'', longitude := JNum ''13.1'', magnitude := JNum ''5.6'',
       depth := JNum ''10'', location := JStr ''Norcia'' \<rparr>"

definition flood :: event where
  "flood = emptyObject
     \<lparr> event_id := JStr ''fl-1'', risk_level := JStr ''high'', timestamp := Some 2000,
       latitude := JNum ''45.4'', longitude := JNum ''12.3'', region := JStr ''Veneto'',
       evacuation_advised := JBool False, water_level := JNum ''3.2'' \<rparr>"

definition heat :: event where
  "heat = emptyObject
     \<lparr> event_id := JStr ''ht-1'', risk_level := JStr ''low'', timestamp := Some 3000,
       latitude := JNum ''37.5'', longitude := JNum ''15.1'', region := JStr ''Sicilia'',
       temperature := JNum ''31'', feels_like := JNum ''33'' \<rparr>"

text \<open>A critical earthquake whose record has no timestamp.\<close>

definition undatedQuake :: event where
  "undatedQuake = quake \<lparr> event_id := JStr ''eq-2'', timestamp := None \<rparr>"

text \<open>A high flood alert whose record has no coordinates.\<close>

definition unplacedFlood :: event where
  "unplacedFlood = flood
     \<lparr> event_id := JStr ''fl-2'', latitude := JUndefined, longitude := JUndefined \<rparr>"

text \<open>An earthquake whose record has no severity.\<close>

definition unratedQuake :: event where
  "unratedQuake = quake \<lparr> event_id := JStr ''eq-3'', risk_level := JUndefined \<rparr>"

text \<open>A high flood alert with evacuation advised.\<close>

definition evacuatedFlood :: event where
  "evacuatedFlood = flood \<lparr> event_id := JStr ''fl-3'', evacuation_advised := JBool True \<rparr>"

text \<open>A critical heat alert.\<close>

definition heatwave :: event where
  "heatwave = heat \<lparr> event_id := JStr ''ht-2'', risk_level := JStr ''critical'' \<rparr>"

text \<open>
  Six earthquakes of one feed: four high ones of which the third has no timestamp,
  then a critical one, then a high one of the time of the fourth.
\<close>

definition shockA :: event where
  "shockA = quake \<lparr> event_id := JStr ''eq-10'', risk_level := JStr ''high'',
     timestamp := Some 1000, magnitude := JNum ''4.0'' \<rparr>"

definition shockB :: event where
  "shockB = quake \<lparr> event_id := JStr ''eq-11'', risk_level := JStr ''high'',
     timestamp := Some 1000, magnitude := JNum ''4.1'' \<rparr>"

definition shockC :: event where
  "shockC = quake \<lparr> event_id := JStr ''eq-12'', risk_level := JStr ''high'',
     timestamp := None, magnitude := JNum ''4.2'' \<rparr>"

definition shockD :: event where
  "shockD = quake \<lparr> event_id := JStr ''eq-13'', risk_level := JStr ''high'',
     timestamp := Some 2000, magnitude := JNum ''4.3'' \<rparr>"

definition shockE :: event where
  "shockE = quake \<lparr> event_id := JStr ''eq-14'', risk_level := JStr ''critical'',
     timestamp := Some 1000, magnitude := JNum ''4.4'' \<rparr>"

definition shockF :: event where
  "shockF = quake \<lparr> event_id := JStr ''eq-15'', risk_level := JStr ''high'',
     timestamp := Some 2000, magnitude := JNum ''4.5'' \<rparr>"

section \<open>Proximity search\<close>

text \<open>
  The hospital search runs on the server (the pages call \<^verbatim>\<open>/hospitals/nearby\<close> with
  \<^verbatim>\<open>limit=5\<close>); its code is not among the sources, so it is modelled from the
  specification, with coordinates and distances as real numbers.
\<close>

text \<open>
  Modelled from the spec: the Hospital record of the data model; the server's
  declaration is missing.
\<close>

record hospital =
  hospital_id :: string
  name :: string
  city :: string
  hospital_region :: string
  hospital_latitude :: real
  hospital_longitude :: real
  totalBeds :: nat
  availableBeds :: nat
  icuBeds :: nat
  icuAvailable :: nat
  equipment :: "string list"
  emergencyCapacity :: bool
  contactPhone :: string

text \<open>
  Modelled from the spec: the Earth radius \<open>R = 6371\<close> km of the distance formula; the
  server's constant is missing.
\<close>

definition earthRadius :: real where
  "earthRadius = 6371"

text \<open>
  Modelled from the spec: the conversion from degrees to radians that the formula
  applies to its angles; the server's code is missing.
\<close>

definition toRadians :: "real \<Rightarrow> real" where
  "toRadians d = d * pi / 180"

text \<open>
  Modelled from the spec: the two-argument arctangent \<open>atan2(y, x)\<close> of the distance
  formula, the angle of the point \<open>(x, y)\<close>; it is a library function of the server's
  language.
\<close>

definition atan2 :: "real \<Rightarrow> real \<Rightarrow> real" where
  "atan2 y x =
     (if 0 < x then arctan (y / x)
      else if x < 0 then (if 0 \<le> y then arctan (y / x) + pi else arctan (y / x) - pi)
      else if 0 < y then pi / 2
      else if y < 0 then - (pi / 2)
      else 0)"

text \<open>
  Modelled from the spec: the great-circle distance (haversine formula), whose code on
  the server is missing:
  \<open>a = sin\<^sup>2(\<Delta>lat/2) + cos(lat1) cos(lat2) sin\<^sup>2(\<Delta>lon/2)\<close> and
  \<open>distance = 2 R atan2(\<surd>a, \<surd>(1 - a))\<close>.
\<close>

definition haversine :: "real \<Rightarrow> real \<Rightarrow> real \<Rightarrow> real \<Rightarrow> real" where
  "haversine lat1 lon1 lat2 lon2 =
     (let dlat = toRadians (lat2 - lat1);
          dlon = toRadians (lon2 - lon1);
          a = (sin (dlat / 2))\<^sup>2
              + cos (toRadians lat1) * cos (toRadians lat2) * (sin (dlon / 2))\<^sup>2
      in 2 * earthRadius * atan2 (sqrt a) (sqrt (1 - a)))"

text \<open>
  Modelled from the spec: the distance from the reference point to a hospital's
  coordinate; the server's code is missing.
\<close>

definition distance :: "real \<Rightarrow> real \<Rightarrow> hospital \<Rightarrow> real" where
  "distance referenceLat referenceLon h =
     haversine referenceLat referenceLon (hospital_latitude h) (hospital_longitude h)"

text \<open>
  Modelled from the spec: the operation \<open>nearest\<close> of the proximity search, whose code
  on the server is missing: sort the hospitals ascending by distance with a stable
  sort and return the first \<open>k\<close> (or all, if there are fewer); for \<open>k \<le> 0\<close> return the
  empty list.
\<close>

definition nearest :: "real \<Rightarrow> real \<Rightarrow> hospital list \<Rightarrow> int \<Rightarrow> hospital list" where
  "nearest referenceLat referenceLon hospitals k =
     (if k \<le> 0 then []
      else take (nat k) (sort_key (distance referenceLat referenceLon) hospitals))"

text \<open>A sample hospital at a given place.\<close>

definition clinic :: "string \<Rightarrow> real \<Rightarrow> real \<Rightarrow> hospital" where
  "clinic n la lo =
     \<lparr> hospital_id = n, name = n, city = ''Roma'', hospital_region = ''Lazio'',
       hospital_latitude = la, hospital_longitude = lo,
       totalBeds = 100, availableBeds = 40, icuBeds = 10, icuAvailable = 4,
       equipment = [''CT''], emergencyCapacity = True, contactPhone = ''+39 06 0000'' \<rparr>"

section \<open>Facts about the loops and the sort\<close>

text \<open>Each loop appends, in order, the alerts of the events that pass the filter.\<close>

lemma fold_pushSeismic:
  "fold pushSeismic es acc = acc @ map seismicAlert (filter highPriority es)"
  by (induction es arbitrary: acc) (simp_all add: pushSeismic_def)

lemma fold_pushFlood:
  "fold pushFlood es acc = acc @ map floodAlert (filter highPriority es)"
  by (induction es arbitrary: acc) (simp_all add: pushFlood_def)

lemma fold_pushHeat:
  "fold pushHeat es acc = acc @ map heatAlert (filter highPriority es)"
  by (induction es arbitrary: acc) (simp_all add: pushHeat_def)

lemma collectAlerts_eq:
  "collectAlerts s f h =
     map seismicAlert (filter highPriority s) @ map floodAlert (filter highPriority f)
       @ map heatAlert (filter highPriority h)"
  by (simp add: collectAlerts_def fold_pushSeismic fold_pushFlood fold_pushHeat)

text \<open>The sort permutes its argument.\<close>

lemma countAndMakeRun_Cons2:
  "countAndMakeRun cmp (x0 # x1 # rest) =
     (let d = (sortCompare cmp x1 x0 < 0); n = runEnd cmp d x1 rest;
          run = x0 # x1 # take n rest
      in (if d then rev run else run, drop n rest))"
  by (simp add: countAndMakeRun_def Let_def)

lemma mset_countAndMakeRun:
  assumes "countAndMakeRun cmp xs = (run, rest)"
  shows "mset run + mset rest = mset xs"
proof (cases xs)
  case Nil
  then show ?thesis using assms by (simp add: countAndMakeRun_def)
next
  case (Cons x0 ys)
  show ?thesis
  proof (cases ys)
    case Nil
    then show ?thesis using assms Cons by (simp add: countAndMakeRun_def)
  next
    case (Cons x1 zs)
    define n where "n = runEnd cmp (sortCompare cmp x1 x0 < 0) x1 zs"
    have "mset (take n zs) + mset (drop n zs) = mset zs"
      by (metis append_take_drop_id mset_append)
    then show ?thesis
      using assms \<open>xs = x0 # ys\<close> Cons
      by (auto simp: countAndMakeRun_Cons2 Let_def n_def split: if_splits)
  qed
qed

lemma mset_binaryInsertionSort:
  "mset (binaryInsertionSort cmp run rest) = mset run + mset rest"
proof (induction rest arbitrary: run)
  case Nil
  then show ?case by simp
next
  case (Cons pivot rest)
  have "mset (take l run @ pivot # drop l run) = add_mset pivot (mset run)" for l
    by (metis append_take_drop_id mset_append mset.simps(2) union_mset_add_mset_right)
  then show ?case using Cons by (simp add: Let_def)
qed

lemma mset_arraySort: "mset (arraySort cmp xs) = mset xs"
proof (cases "countAndMakeRun cmp xs")
  case (Pair run rest)
  then show ?thesis
    by (simp add: arraySort_def mset_binaryInsertionSort mset_countAndMakeRun)
qed

lemma set_arraySort: "set (arraySort cmp xs) = set xs"
  using mset_arraySort [of cmp xs] by (metis set_mset_mset)

lemma length_arraySort: "length (arraySort cmp xs) = length xs"
  using mset_arraySort [of cmp xs] by (metis size_mset)

text \<open>
  Where the comparator is the order of a key \<open>k\<close> on the elements, the run is sorted by
  the key and the binary search finds the place after the elements whose key is not
  greater: the result is sorted by the key and keeps the order of elements of one key.
\<close>

lemma runEnd_ascending:
  fixes k :: "'a \<Rightarrow> 'k::linorder"
  assumes "\<forall>a\<in>A. \<forall>b\<in>A. (sortCompare cmp a b < 0) = (k a < k b)"
    and "prev \<in> A" and "set rest \<subseteq> A"
  shows "sorted (map k (prev # take (runEnd cmp False prev rest) rest))"
  using assms(2,3)
proof (induction rest arbitrary: prev)
  case Nil
  then show ?case by simp
next
  case (Cons c rest)
  show ?case
  proof (cases "sortCompare cmp c prev < 0")
    case True
    then show ?thesis by simp
  next
    case False
    have "\<not> k c < k prev" using assms(1) Cons.prems False by auto
    then have "k prev \<le> k c" by simp
    moreover have "sorted (map k (c # take (runEnd cmp False c rest) rest))"
      using Cons by simp
    ultimately show ?thesis using False by auto
  qed
qed

lemma runEnd_descending:
  fixes k :: "'a \<Rightarrow> 'k::linorder"
  assumes "\<forall>a\<in>A. \<forall>b\<in>A. (sortCompare cmp a b < 0) = (k a < k b)"
    and "prev \<in> A" and "set rest \<subseteq> A"
  shows "sorted_wrt (\<lambda>a b. k b < k a) (prev # take (runEnd cmp True prev rest) rest)"
  using assms(2,3)
proof (induction rest arbitrary: prev)
  case Nil
  then show ?case by simp
next
  case (Cons c rest)
  show ?case
  proof (cases "sortCompare cmp c prev < 0")
    case False
    then show ?thesis by simp
  next
    case True
    then have "k c < k prev" using assms(1) Cons.prems by simp
    moreover have "sorted_wrt (\<lambda>a b. k b < k a) (c # take (runEnd cmp True c rest) rest)"
      using Cons by simp
    ultimately show ?thesis using True by auto
  qed
qed

lemma strict_filter_rev:
  fixes k :: "'a \<Rightarrow> 'k::linorder"
  assumes "sorted_wrt (\<lambda>a b. k b < k a) xs"
  shows "filter (\<lambda>y. k y = c) (rev xs) = filter (\<lambda>y. k y = c) xs"
proof -
  have "length (filter (\<lambda>y. k y = c) xs) \<le> 1"
    using assms
  proof (induction xs)
    case Nil
    then show ?case by simp
  next
    case (Cons x xs)
    then have "filter (\<lambda>y. k y = c) xs = []" if "k x = c"
      using that by (auto simp: filter_empty_conv)
    then show ?case using Cons by auto
  qed
  then have "rev (filter (\<lambda>y. k y = c) xs) = filter (\<lambda>y. k y = c) xs"
    by (cases "filter (\<lambda>y. k y = c) xs") (auto simp: le_Suc_eq)
  then show ?thesis by (simp add: rev_filter)
qed

lemma strict_sorted_rev:
  fixes k :: "'a \<Rightarrow> 'k::linorder"
  assumes "sorted_wrt (\<lambda>a b. k b < k a) xs"
  shows "sorted (map k (rev xs))"
proof -
  have "sorted_wrt (\<lambda>a b. k b \<le> k a) xs"
    using assms by (rule sorted_wrt_mono_rel [rotated]) simp
  then show ?thesis
    by (simp add: sorted_map sorted_wrt_rev)
qed

lemma countAndMakeRun_sorted:
  fixes k :: "'a \<Rightarrow> 'k::linorder"
  assumes K: "\<forall>a\<in>A. \<forall>b\<in>A. (sortCompare cmp a b < 0) = (k a < k b)"
    and "set xs \<subseteq> A" and "countAndMakeRun cmp xs = (run, rest)"
  shows "sorted (map k run) \<and> filter (\<lambda>y. k y = c) (run @ rest) = filter (\<lambda>y. k y = c) xs"
proof (cases xs)
  case Nil
  then show ?thesis using assms by (simp add: countAndMakeRun_def)
next
  case (Cons x0 ys)
  show ?thesis
  proof (cases ys)
    case Nil
    then show ?thesis using assms Cons by (auto simp: countAndMakeRun_def)
  next
    case (Cons x1 zs)
    define d where "d = (sortCompare cmp x1 x0 < 0)"
    define n where "n = runEnd cmp d x1 zs"
    have xs: "xs = x0 # x1 # zs" using \<open>xs = x0 # ys\<close> Cons by simp
    have mem: "x0 \<in> A" "x1 \<in> A" "set zs \<subseteq> A" using assms(2) xs by simp_all
    have rest: "rest = drop n zs" and run: "run = (if d then rev (x0 # x1 # take n zs) else x0 # x1 # take n zs)"
      using assms(3) unfolding xs countAndMakeRun_Cons2 Let_def d_def n_def by auto
    have whole: "(x0 # x1 # take n zs) @ rest = xs"
      using rest xs by simp
    show ?thesis
    proof (cases d)
      case True
      then have "k x1 < k x0" using K mem d_def by simp
      moreover have "sorted_wrt (\<lambda>a b. k b < k a) (x1 # take n zs)"
        using runEnd_descending [OF K mem(2,3)] True n_def by simp
      ultimately have s: "sorted_wrt (\<lambda>a b. k b < k a) (x0 # x1 # take n zs)"
        by auto
      have r: "run = rev (x0 # x1 # take n zs)"
        using run True by (simp only: if_True)
      have "filter (\<lambda>y. k y = c) run = filter (\<lambda>y. k y = c) (x0 # x1 # take n zs)"
        unfolding r by (rule strict_filter_rev [OF s])
      then have "filter (\<lambda>y. k y = c) (run @ rest)
          = filter (\<lambda>y. k y = c) ((x0 # x1 # take n zs) @ rest)"
        by (simp only: filter_append)
      then have f: "filter (\<lambda>y. k y = c) (run @ rest) = filter (\<lambda>y. k y = c) xs"
        by (simp only: whole)
      have "sorted (map k run)"
        unfolding r by (rule strict_sorted_rev [OF s])
      then show ?thesis using f by blast
    next
      case False
      then have "\<not> k x1 < k x0" using K mem d_def by auto
      then have "k x0 \<le> k x1" by simp
      moreover have "sorted (map k (x1 # take n zs))"
        using runEnd_ascending [OF K mem(2,3)] False n_def by simp
      ultimately have "sorted (map k (x0 # x1 # take n zs))" by auto
      then show ?thesis using run False whole by simp
    qed
  qed
qed

lemma binarySearch_spec:
  fixes k :: "'a \<Rightarrow> 'k::linorder"
  assumes "\<forall>a\<in>A. \<forall>b\<in>A. (sortCompare cmp a b < 0) = (k a < k b)"
    and "sorted (map k xs)" and "set xs \<subseteq> A" and "pivot \<in> A"
    and "left \<le> right" and "right \<le> length xs"
    and "\<forall>i<left. k (xs ! i) \<le> k pivot"
    and "\<forall>i. right \<le> i \<and> i < length xs \<longrightarrow> k pivot < k (xs ! i)"
  shows "binarySearch cmp pivot xs left right \<le> length xs
    \<and> (\<forall>i<binarySearch cmp pivot xs left right. k (xs ! i) \<le> k pivot)
    \<and> (\<forall>i. binarySearch cmp pivot xs left right \<le> i \<and> i < length xs \<longrightarrow> k pivot < k (xs ! i))"
  using assms
proof (induction cmp pivot xs left right rule: binarySearch.induct)
  case (1 cmp pivot xs left right)
  note K = "1.prems"(1) and sorted = "1.prems"(2) and sub = "1.prems"(3) and piv = "1.prems"(4)
  show ?case
  proof (cases "left < right")
    case False
    then have "binarySearch cmp pivot xs left right = left"
      by (simp add: binarySearch.simps)
    moreover have "left = right" using False "1.prems" by simp
    ultimately show ?thesis using "1.prems" by simp
  next
    case True
    define mid where "mid = left + (right - left) div 2"
    have m: "left \<le> mid" "mid < right" "mid < length xs" "mid \<le> right" "mid + 1 \<le> right"
      using True "1.prems"(5,6) by (simp_all add: mid_def)
    have srt: "k (xs ! i) \<le> k (xs ! j)" if "i \<le> j" "j < length xs" for i j
    proof -
      have "map k xs ! i \<le> map k xs ! j"
        using sorted_nth_mono [OF sorted, of i j] that by simp
      then show ?thesis using that by simp
    qed
    have pm: "xs ! mid \<in> A" using m sub by (meson nth_mem subsetD)
    show ?thesis
    proof (cases "sortCompare cmp pivot (xs ! mid) < 0")
      case lt: True
      then have "k pivot < k (xs ! mid)" using K pm piv by simp
      have hi: "\<forall>i. mid \<le> i \<and> i < length xs \<longrightarrow> k pivot < k (xs ! i)"
      proof (intro allI impI)
        fix i assume "mid \<le> i \<and> i < length xs"
        then have "k (xs ! mid) \<le> k (xs ! i)" using srt by blast
        then show "k pivot < k (xs ! i)" using \<open>k pivot < k (xs ! mid)\<close> by simp
      qed
      have eq: "binarySearch cmp pivot xs left right = binarySearch cmp pivot xs left mid"
        using True lt by (subst binarySearch.simps) (simp add: mid_def Let_def)
      have "mid \<le> length xs" using m by simp
      then show ?thesis unfolding eq
        using "1.IH"(1) [OF True mid_def lt K sorted sub piv m(1) _ "1.prems"(7) hi]
        by simp
    next
      case ge: False
      then have "\<not> k pivot < k (xs ! mid)" using K pm piv by auto
      then have "k (xs ! mid) \<le> k pivot" by simp
      have lo: "\<forall>i<mid + 1. k (xs ! i) \<le> k pivot"
      proof (intro allI impI)
        fix i assume "i < mid + 1"
        then have "i \<le> mid" by simp
        then have "k (xs ! i) \<le> k (xs ! mid)" using srt m(3) by blast
        then show "k (xs ! i) \<le> k pivot" using \<open>k (xs ! mid) \<le> k pivot\<close> by simp
      qed
      have eq: "binarySearch cmp pivot xs left right = binarySearch cmp pivot xs (mid + 1) right"
        using True ge by (subst binarySearch.simps) (simp add: mid_def Let_def)
      show ?thesis unfolding eq
        using "1.IH"(2) [OF True mid_def ge K sorted sub piv m(5) "1.prems"(6) lo "1.prems"(8)]
        by simp
    qed
  qed
qed

lemma binaryInsert_sorted:
  fixes k :: "'a \<Rightarrow> 'k::linorder"
  assumes K: "\<forall>a\<in>A. \<forall>b\<in>A. (sortCompare cmp a b < 0) = (k a < k b)"
    and srt: "sorted (map k run)" and sub: "set run \<subseteq> A" and piv: "pivot \<in> A"
  defines "left \<equiv> binarySearch cmp pivot run 0 (length run)"
  shows "sorted (map k (take left run @ pivot # drop left run))"
    and "filter (\<lambda>y. k y = c) (take left run @ pivot # drop left run)
           = filter (\<lambda>y. k y = c) (run @ [pivot])"
proof -
  have spec: "left \<le> length run" "\<forall>i<left. k (run ! i) \<le> k pivot"
    "\<forall>i. left \<le> i \<and> i < length run \<longrightarrow> k pivot < k (run ! i)"
  proof -
    have lo0: "\<forall>i<0. k (run ! i) \<le> k pivot" by simp
    have hi0: "\<forall>i. length run \<le> i \<and> i < length run \<longrightarrow> k pivot < k (run ! i)" by auto
    have "0 \<le> length run" "length run \<le> length run" by simp_all
    from binarySearch_spec [OF K srt sub piv this lo0 hi0]
    show "left \<le> length run" "\<forall>i<left. k (run ! i) \<le> k pivot"
      "\<forall>i. left \<le> i \<and> i < length run \<longrightarrow> k pivot < k (run ! i)"
      unfolding left_def by blast+
  qed
  have lo: "k y \<le> k pivot" if y: "y \<in> set (take left run)" for y
  proof -
    from y obtain i where "i < length (take left run)" "take left run ! i = y"
      unfolding in_set_conv_nth by blast
    then show ?thesis using spec(1,2) by auto
  qed
  have hi: "k pivot < k y" if y: "y \<in> set (drop left run)" for y
  proof -
    from y obtain i where i: "i < length (drop left run)" "drop left run ! i = y"
      unfolding in_set_conv_nth by blast
    then have "run ! (left + i) = y" "left + i < length run" using spec(1) by auto
    moreover have "left \<le> left + i" by simp
    ultimately show ?thesis using spec(3) by blast
  qed
  have st: "sorted (map k (take left run))" "sorted (map k (drop left run))"
    using srt by (simp_all add: take_map [symmetric] drop_map [symmetric] sorted_wrt_take sorted_wrt_drop)
  have cross: "k y \<le> k z" if "y \<in> set (take left run)" "z \<in> set (drop left run)" for y z
    using lo [OF that(1)] hi [OF that(2)] by simp
  show "sorted (map k (take left run @ pivot # drop left run))"
    using st lo hi cross by (auto simp: sorted_append less_imp_le)
  have "filter (\<lambda>y. k y = c) (drop left run) = []" if "k pivot = c"
  proof -
    have "k y \<noteq> c" if "y \<in> set (drop left run)" for y
      using hi [OF that] \<open>k pivot = c\<close> by auto
    then show ?thesis by (simp add: filter_empty_conv)
  qed
  moreover have "filter (\<lambda>y. k y = c) run
      = filter (\<lambda>y. k y = c) (take left run) @ filter (\<lambda>y. k y = c) (drop left run)"
    by (metis append_take_drop_id filter_append)
  ultimately show "filter (\<lambda>y. k y = c) (take left run @ pivot # drop left run)
           = filter (\<lambda>y. k y = c) (run @ [pivot])"
    by simp
qed

lemma binaryInsertionSort_sorted:
  fixes k :: "'a \<Rightarrow> 'k::linorder"
  assumes K: "\<forall>a\<in>A. \<forall>b\<in>A. (sortCompare cmp a b < 0) = (k a < k b)"
    and "sorted (map k run)" and "set run \<subseteq> A" and "set rest \<subseteq> A"
  shows "sorted (map k (binaryInsertionSort cmp run rest))
    \<and> filter (\<lambda>y. k y = c) (binaryInsertionSort cmp run rest)
        = filter (\<lambda>y. k y = c) (run @ rest)"
  using assms(2-)
proof (induction rest arbitrary: run)
  case Nil
  then show ?case by simp
next
  case (Cons pivot rest)
  define left where "left = binarySearch cmp pivot run 0 (length run)"
  define run' where "run' = take left run @ pivot # drop left run"
  have piv: "pivot \<in> A" and rest: "set rest \<subseteq> A" using Cons.prems by simp_all
  have s: "sorted (map k run')"
    and f: "filter (\<lambda>y. k y = c) run' = filter (\<lambda>y. k y = c) (run @ [pivot])"
    unfolding run'_def left_def
    using binaryInsert_sorted [OF K Cons.prems(1,2) piv] by simp_all
  have "set run' \<subseteq> A"
    unfolding run'_def using Cons.prems(2) piv
    by (auto dest: in_set_takeD in_set_dropD)
  then have ih: "sorted (map k (binaryInsertionSort cmp run' rest))
    \<and> filter (\<lambda>y. k y = c) (binaryInsertionSort cmp run' rest)
        = filter (\<lambda>y. k y = c) (run' @ rest)"
    using Cons.IH [OF s _ rest] by simp
  have "binaryInsertionSort cmp run (pivot # rest) = binaryInsertionSort cmp run' rest"
    by (simp add: Let_def run'_def left_def)
  then show ?case using ih f by simp
qed

lemma arraySort_sorted:
  fixes k :: "'a \<Rightarrow> 'k::linorder"
  assumes K: "\<forall>a\<in>A. \<forall>b\<in>A. (sortCompare cmp a b < 0) = (k a < k b)"
    and sub: "set xs \<subseteq> A"
  shows "sorted (map k (arraySort cmp xs))"
    and "filter (\<lambda>y. k y = c) (arraySort cmp xs) = filter (\<lambda>y. k y = c) xs"
proof -
  obtain run rest where cr: "countAndMakeRun cmp xs = (run, rest)"
    by (cases "countAndMakeRun cmp xs")
  have run: "sorted (map k run)"
    and fr: "filter (\<lambda>y. k y = c) (run @ rest) = filter (\<lambda>y. k y = c) xs"
    using countAndMakeRun_sorted [OF K sub cr] by simp_all
  have "mset run + mset rest = mset xs" by (rule mset_countAndMakeRun [OF cr])
  then have "set run \<union> set rest = set xs"
    by (metis set_mset_mset set_mset_union)
  then have mem: "set run \<subseteq> A" "set rest \<subseteq> A" using sub by auto
  have bis: "sorted (map k (binaryInsertionSort cmp run rest))"
    "filter (\<lambda>y. k y = c) (binaryInsertionSort cmp run rest) = filter (\<lambda>y. k y = c) (run @ rest)"
    using binaryInsertionSort_sorted [OF K run mem] by simp_all
  have short: "sorted (map k xs)" if "length xs < 2"
  proof -
    have "xs = [] \<or> (\<exists>x. xs = [x])"
      using that by (cases xs) (auto simp: less_Suc_eq length_Suc_conv numeral_2_eq_2)
    then show ?thesis by auto
  qed
  show "sorted (map k (arraySort cmp xs))"
    using bis(1) short by (simp add: arraySort_def cr)
  show "filter (\<lambda>y. k y = c) (arraySort cmp xs) = filter (\<lambda>y. k y = c) xs"
    using bis(2) fr by (simp add: arraySort_def cr)
qed

text \<open>What the aggregation holds, and what its alerts carry.\<close>

lemma set_collectAlerts:
  "set (collectAlerts s f h) =
     seismicAlert ` {e \<in> set s. highPriority e} \<union> floodAlert ` {e \<in> set f. highPriority e}
       \<union> heatAlert ` {e \<in> set h. highPriority e}"
  by (auto simp: collectAlerts_eq)

lemma set_allAlerts: "set (allAlerts s f h) = set (collectAlerts s f h)"
  by (simp add: allAlerts_def set_arraySort)

lemma level_alerts [simp]:
  "level (seismicAlert e) = risk_level e" "level (floodAlert e) = risk_level e"
  "level (heatAlert e) = risk_level e"
  by (simp_all add: seismicAlert_def floodAlert_def heatAlert_def)

lemma time_alerts [simp]:
  "time (seismicAlert e) = newDate (timestamp e)" "time (floodAlert e) = newDate (timestamp e)"
  "time (heatAlert e) = newDate (timestamp e)"
  by (simp_all add: seismicAlert_def floodAlert_def heatAlert_def)

lemma collectAlerts_skip:
  assumes "\<not> highPriority e"
  shows "collectAlerts (s1 @ e # s2) f h = collectAlerts (s1 @ s2) f h"
    and "collectAlerts s (f1 @ e # f2) h = collectAlerts s (f1 @ f2) h"
    and "collectAlerts s f (h1 @ e # h2) = collectAlerts s f (h1 @ h2)"
  using assms by (simp_all add: collectAlerts_eq)

lemmas sample_defs =
  emptyObject_def quake_def flood_def heat_def undatedQuake_def unplacedFlood_def
  unratedQuake_def heatwave_def evacuatedFlood_def
  shockA_def shockB_def shockC_def shockD_def shockE_def shockF_def

section \<open>The sample records, evaluated\<close>

lemma sample_priority:
  "highPriority quake" "highPriority flood" "\<not> highPriority heat"
  "\<not> highPriority unratedQuake" "highPriority undatedQuake" "highPriority unplacedFlood"
  "highPriority heatwave"
  by (simp_all add: highPriority_def sample_defs)

lemma sample_rank:
  "severityRank (seismicAlert quake) = Some 0" "severityRank (floodAlert flood) = Some 1"
  "severityRank (seismicAlert undatedQuake) = Some 0"
  "severityRank (floodAlert unplacedFlood) = Some 1"
  "severityRank (heatAlert heatwave) = Some 0"
  by (simp_all add: severityRank_def levelOrder_def sample_defs)

lemma sample_time:
  "time (seismicAlert quake) = DateAt 1000" "time (floodAlert flood) = DateAt 2000"
  "time (seismicAlert undatedQuake) = InvalidDate"
  "time (floodAlert unplacedFlood) = DateAt 2000"
  "time (heatAlert heatwave) = DateAt 3000"
  by (simp_all add: sample_defs)

lemma sample_timestamp:
  "timestamp quake = Some 1000" "timestamp flood = Some 2000" "timestamp heat = Some 3000"
  "timestamp undatedQuake = None" "timestamp heatwave = Some 3000"
  "timestamp unplacedFlood = Some 2000"
  by (simp_all add: sample_defs)

lemma sample_level:
  "risk_level quake = JStr ''critical''" "risk_level flood = JStr ''high''"
  "risk_level heat = JStr ''low''" "risk_level unratedQuake = JUndefined"
  "risk_level heatwave = JStr ''critical''"
  by (simp_all add: sample_defs)

lemma sample_malformed:
  "malformed undatedQuake" "malformed unplacedFlood" "malformed unratedQuake"
  by (simp_all add: malformed_def sample_defs)

lemma sample_fields:
  "magnitude quake = JNum ''5.6''" "depth quake = JNum ''10''"
  "evacuation_advised flood = JBool False" "water_level flood = JNum ''3.2''"
  "evacuation_advised evacuatedFlood = JBool True"
  "temperature heatwave = JNum ''31''" "feels_like heatwave = JNum ''33''"
  "highPriority evacuatedFlood"
  by (simp_all add: sample_defs highPriority_def)

lemma sample_coordinates:
  "latitude unplacedFlood = JUndefined" "longitude unplacedFlood = JUndefined"
  "latitude undatedQuake = JNum ''42.8''" "longitude undatedQuake = JNum ''13.1''"
  by (simp_all add: sample_defs)

lemma sample_more:
  "severityRank (floodAlert evacuatedFlood) = Some 1" "timestamp evacuatedFlood = Some 2000"
  by (simp_all add: severityRank_def levelOrder_def sample_defs)

lemma sample_shocks:
  "highPriority shockA" "highPriority shockB" "highPriority shockC"
  "highPriority shockD" "highPriority shockE" "highPriority shockF"
  "severityRank (seismicAlert shockA) = Some 1" "severityRank (seismicAlert shockB) = Some 1"
  "severityRank (seismicAlert shockC) = Some 1" "severityRank (seismicAlert shockD) = Some 1"
  "severityRank (seismicAlert shockE) = Some 0" "severityRank (seismicAlert shockF) = Some 1"
  "timestamp shockA = Some 1000" "timestamp shockB = Some 1000" "timestamp shockC = None"
  "timestamp shockD = Some 2000" "timestamp shockE = Some 1000" "timestamp shockF = Some 2000"
  by (simp_all add: highPriority_def severityRank_def levelOrder_def sample_defs)

lemma sample_distinct:
  "seismicAlert shockD \<noteq> seismicAlert shockF"
  "floodAlert flood \<noteq> floodAlert evacuatedFlood"
  by (simp_all add: seismicAlert_def floodAlert_def sample_defs)

lemmas sort_defs =
  allAlerts_def collectAlerts_eq arraySort_def countAndMakeRun_def binarySearch.simps
  Let_def sortCompare_def compareAlerts_def

lemma sample_runs:
  "allAlerts [unratedQuake, quake] [flood] [heat] = [seismicAlert quake, floodAlert flood]"
  "allAlerts [quake] [flood] [heat] = [seismicAlert quake, floodAlert flood]"
  "allAlerts [quake] [flood] [heatwave]
     = [heatAlert heatwave, seismicAlert quake, floodAlert flood]"
  "allAlerts [quake, undatedQuake] [] [] = [seismicAlert quake, seismicAlert undatedQuake]"
  "allAlerts [undatedQuake] [] [] = [seismicAlert undatedQuake]"
  "allAlerts [] [unplacedFlood] [] = [floodAlert unplacedFlood]"
  "allAlerts [quake] [flood] [] = [seismicAlert quake, floodAlert flood]"
  by (simp_all add: sort_defs sample_priority sample_rank sample_timestamp)

lemma sample_ties:
  "allAlerts [quake] [flood, evacuatedFlood] [heatwave]
     = [heatAlert heatwave, seismicAlert quake, floodAlert flood, floodAlert evacuatedFlood]"
  "allAlerts [quake] [evacuatedFlood, flood] [heatwave]
     = [heatAlert heatwave, seismicAlert quake, floodAlert evacuatedFlood, floodAlert flood]"
  by (simp_all add: sort_defs sample_priority sample_rank sample_timestamp sample_fields
      sample_more)

lemma sample_shock_run:
  "allAlerts [shockA, shockB, shockC, shockD, shockE, shockF] [] []
     = [seismicAlert shockE, seismicAlert shockF, seismicAlert shockA, seismicAlert shockB,
        seismicAlert shockC, seismicAlert shockD]"
  by code_simp

section \<open>Order facts for dated alerts\<close>

text \<open>
  An alert of a high or critical event whose date is valid has a rank and a time value;
  on such alerts the comparator and \<open>inOrder\<close> are decided by these two numbers, that
  is by the key, and the output is sorted by the key and keeps the order of the alerts
  of one key.
\<close>

lemma ranked_dated:
  assumes "comparable a"
  shows "\<exists>r t. severityRank a = Some r \<and> time a = DateAt t \<and> alertKey a = (r, - t)"
proof -
  obtain t where "time a = DateAt t"
    using assms by (cases "time a") (auto simp: comparable_def)
  moreover obtain r where "severityRank a = Some r"
    using assms by (auto simp: comparable_def severityRank_def levelOrder_def)
  ultimately show ?thesis by (simp add: alertKey_def)
qed

lemma inOrder_decided:
  assumes "severityRank a = Some ra" "time a = DateAt ta"
    and "severityRank b = Some rb" "time b = DateAt tb"
  shows "inOrder a b = (ra < rb \<or> (ra = rb \<and> tb \<le> ta))"
    and "sortCompare compareAlerts a b = (if ra \<noteq> rb then ra - rb else tb - ta)"
  using assms by (auto simp: inOrder_def sortCompare_def compareAlerts_def)

lemma compare_key:
  assumes "comparable a" and "comparable b"
  shows "(sortCompare compareAlerts a b < 0) = (alertKey a < alertKey b)"
    and "inOrder a b = (alertKey a \<le> alertKey b)"
proof -
  obtain ra ta where a: "severityRank a = Some ra" "time a = DateAt ta" "alertKey a = (ra, - ta)"
    using ranked_dated [OF assms(1)] by blast
  obtain rb tb where b: "severityRank b = Some rb" "time b = DateAt tb" "alertKey b = (rb, - tb)"
    using ranked_dated [OF assms(2)] by blast
  show "(sortCompare compareAlerts a b < 0) = (alertKey a < alertKey b)"
    using inOrder_decided(2) [OF a(1,2) b(1,2)] a(3) b(3) by auto
  show "inOrder a b = (alertKey a \<le> alertKey b)"
    using inOrder_decided(1) [OF a(1,2) b(1,2)] a(3) b(3) by auto
qed

lemma tied_key:
  assumes "\<forall>a \<in> set xs. comparable a"
  shows "tied r t xs =
     (case r of
        None \<Rightarrow> []
      | Some r' \<Rightarrow>
          (case t of InvalidDate \<Rightarrow> [] | DateAt t' \<Rightarrow> filter (\<lambda>a. alertKey a = (r', - t')) xs))"
proof -
  have key: "(severityRank a = r \<and> time a = t)
      = (case r of None \<Rightarrow> False
         | Some r' \<Rightarrow> (case t of InvalidDate \<Rightarrow> False | DateAt t' \<Rightarrow> alertKey a = (r', - t')))"
    if mem: "a \<in> set xs" for a
  proof -
    have "comparable a" using assms mem by blast
    then obtain ra ta where
      "severityRank a = Some ra" "time a = DateAt ta" "alertKey a = (ra, - ta)"
      using ranked_dated by blast
    then show ?thesis by (auto split: option.splits jsdate.splits)
  qed
  have "tied r t xs = filter (\<lambda>a. case r of None \<Rightarrow> False
         | Some r' \<Rightarrow> (case t of InvalidDate \<Rightarrow> False | DateAt t' \<Rightarrow> alertKey a = (r', - t'))) xs"
    unfolding tied_def using key by (intro filter_cong) simp_all
  then show ?thesis by (simp split: option.splits jsdate.splits)
qed

lemma collectAlerts_comparable:
  assumes "\<forall>e \<in> set s \<union> set f \<union> set h. highPriority e \<longrightarrow> timestamp e \<noteq> None"
  shows "\<forall>a \<in> set (collectAlerts s f h). comparable a"
proof -
  have dated: "newDate (timestamp e) \<noteq> InvalidDate" if "timestamp e \<noteq> None" for e
    using that by (cases "timestamp e") auto
  show ?thesis
    using assms dated unfolding set_collectAlerts comparable_def
    by (auto simp: highPriority_def)
qed

lemma allAlerts_dated:
  assumes "\<forall>e \<in> set s \<union> set f \<union> set h. highPriority e \<longrightarrow> timestamp e \<noteq> None"
  shows "sorted (map alertKey (allAlerts s f h))"
    and "filter (\<lambda>a. alertKey a = c) (allAlerts s f h)
           = filter (\<lambda>a. alertKey a = c) (collectAlerts s f h)"
    and "\<forall>a \<in> set (allAlerts s f h). comparable a"
proof -
  have K: "\<forall>a\<in>Collect comparable. \<forall>b\<in>Collect comparable.
      (sortCompare compareAlerts a b < 0) = (alertKey a < alertKey b)"
    using compare_key(1) by simp
  have sub: "set (collectAlerts s f h) \<subseteq> Collect comparable"
    using collectAlerts_comparable [OF assms] by blast
  show "sorted (map alertKey (allAlerts s f h))"
    unfolding allAlerts_def by (rule arraySort_sorted(1) [OF K sub])
  show "filter (\<lambda>a. alertKey a = c) (allAlerts s f h)
           = filter (\<lambda>a. alertKey a = c) (collectAlerts s f h)"
    unfolding allAlerts_def by (rule arraySort_sorted(2) [OF K sub])
  show "\<forall>a \<in> set (allAlerts s f h). comparable a"
    using sub by (auto simp: allAlerts_def set_arraySort)
qed

section \<open>Facts about the heap\<close>

text \<open>
  The array that the aggregation allocates is the last cell; pushing to it and sorting
  it leave every other cell as it was, and the loops on the heap compute what the
  loops on lists compute.
\<close>

lemma readAlerts_fresh: "readAlerts (h @ [AlertArray xs]) (length h) = Some xs"
  by (simp add: readAlerts_def)

lemma readEvents_bound: "readEvents h p = Some es \<Longrightarrow> p < length h"
  by (simp add: readEvents_def split: if_splits)

lemma readEvents_append: "p < length h \<Longrightarrow> readEvents (h @ cs) p = readEvents h p"
  by (simp add: readEvents_def nth_append)

lemma pushAt_fresh:
  "pushAt (length h) x (h @ [AlertArray xs]) = h @ [AlertArray (xs @ [x])]"
  by (simp add: pushAt_def readAlerts_fresh)

lemma sortAt_fresh:
  "sortAt (length h) (h @ [AlertArray xs]) = h @ [AlertArray (arraySort compareAlerts xs)]"
  by (simp add: sortAt_def readAlerts_fresh)

lemma fold_pushSeismicAt:
  "fold (pushSeismicAt (length h)) es (h @ [AlertArray xs])
     = h @ [AlertArray (fold pushSeismic es xs)]"
  by (induction es arbitrary: xs) (simp_all add: pushSeismicAt_def pushSeismic_def pushAt_fresh)

lemma fold_pushFloodAt:
  "fold (pushFloodAt (length h)) es (h @ [AlertArray xs])
     = h @ [AlertArray (fold pushFlood es xs)]"
  by (induction es arbitrary: xs) (simp_all add: pushFloodAt_def pushFlood_def pushAt_fresh)

lemma fold_pushHeatAt:
  "fold (pushHeatAt (length h)) es (h @ [AlertArray xs])
     = h @ [AlertArray (fold pushHeat es xs)]"
  by (induction es arbitrary: xs) (simp_all add: pushHeatAt_def pushHeat_def pushAt_fresh)

lemma allAlertsOnHeap_eq:
  assumes "readEvents h ps = Some s" and "readEvents h pf = Some f"
    and "readEvents h ph = Some e"
  shows "allAlertsOnHeap h ps pf ph = Some (length h, h @ [AlertArray (allAlerts s f e)])"
proof -
  have "ps < length h" "pf < length h" "ph < length h"
    using assms readEvents_bound by blast+
  then have r: "readEvents (h @ cs) ps = Some s" "readEvents (h @ cs) pf = Some f"
    "readEvents (h @ cs) ph = Some e" for cs
    using assms by (simp_all add: readEvents_append)
  show ?thesis
    by (simp add: allAlertsOnHeap_def Let_def r fold_pushSeismicAt fold_pushFloodAt
        fold_pushHeatAt sortAt_fresh allAlerts_def collectAlerts_def)
qed

text \<open>One more high or critical event is one more alert.\<close>

lemma mset_allAlerts_cons:
  assumes "highPriority e"
  shows "mset (allAlerts (s1 @ e # s2) f h) = add_mset (seismicAlert e) (mset (allAlerts (s1 @ s2) f h))"
    and "mset (allAlerts s (f1 @ e # f2) h) = add_mset (floodAlert e) (mset (allAlerts s (f1 @ f2) h))"
    and "mset (allAlerts s f (h1 @ e # h2)) = add_mset (heatAlert e) (mset (allAlerts s f (h1 @ h2)))"
  using assms by (simp_all add: allAlerts_def mset_arraySort collectAlerts_eq)

section \<open>Claims about the aggregation\<close>

text \<open>
  C1. Every alert in the output of the aggregation comes from an event of one of the
  three input lists whose \<open>risk_level\<close> is exactly \<open>"high"\<close> or \<open>"critical"\<close>, and
  carries that level; an event of any other severity (an unrecognised string, a missing
  severity) is excluded: the output is what it is without the event, wherever the event
  stands in its list.
\<close>

theorem allAlerts_only_high_priority:
  "(a \<in> set (allAlerts s f h) \<longrightarrow>
      (level a = JStr ''high'' \<or> level a = JStr ''critical'')
      \<and> ((\<exists>e \<in> set s. (risk_level e = JStr ''high'' \<or> risk_level e = JStr ''critical'')
              \<and> a = seismicAlert e)
         \<or> (\<exists>e \<in> set f. (risk_level e = JStr ''high'' \<or> risk_level e = JStr ''critical'')
              \<and> a = floodAlert e)
         \<or> (\<exists>e \<in> set h. (risk_level e = JStr ''high'' \<or> risk_level e = JStr ''critical'')
              \<and> a = heatAlert e)))
   \<and> (risk_level x \<noteq> JStr ''high'' \<and> risk_level x \<noteq> JStr ''critical'' \<longrightarrow>
      allAlerts (s1 @ x # s2) f h = allAlerts (s1 @ s2) f h
      \<and> allAlerts s (f1 @ x # f2) h = allAlerts s (f1 @ f2) h
      \<and> allAlerts s f (h1 @ x # h2) = allAlerts s f (h1 @ h2))"
proof (intro conjI impI)
  assume "a \<in> set (allAlerts s f h)"
  then have "a \<in> set (collectAlerts s f h)"
    by (simp add: set_allAlerts)
  then consider
      e where "e \<in> set s" "highPriority e" "a = seismicAlert e"
    | e where "e \<in> set f" "highPriority e" "a = floodAlert e"
    | e where "e \<in> set h" "highPriority e" "a = heatAlert e"
    unfolding set_collectAlerts by blast
  then have src: "(\<exists>e \<in> set s. highPriority e \<and> a = seismicAlert e)
      \<or> (\<exists>e \<in> set f. highPriority e \<and> a = floodAlert e)
      \<or> (\<exists>e \<in> set h. highPriority e \<and> a = heatAlert e)"
    by cases blast+
  then show "level a = JStr ''high'' \<or> level a = JStr ''critical''"
    unfolding highPriority_def by auto
  from src show "(\<exists>e \<in> set s. (risk_level e = JStr ''high'' \<or> risk_level e = JStr ''critical'')
              \<and> a = seismicAlert e)
         \<or> (\<exists>e \<in> set f. (risk_level e = JStr ''high'' \<or> risk_level e = JStr ''critical'')
              \<and> a = floodAlert e)
         \<or> (\<exists>e \<in> set h. (risk_level e = JStr ''high'' \<or> risk_level e = JStr ''critical'')
              \<and> a = heatAlert e)"
    unfolding highPriority_def .
next
  assume "risk_level x \<noteq> JStr ''high'' \<and> risk_level x \<noteq> JStr ''critical''"
  then have n: "\<not> highPriority x" by (simp add: highPriority_def)
  show "allAlerts (s1 @ x # s2) f h = allAlerts (s1 @ s2) f h"
    "allAlerts s (f1 @ x # f2) h = allAlerts s (f1 @ f2) h"
    "allAlerts s f (h1 @ x # h2) = allAlerts s f (h1 @ h2)"
    by (simp_all add: allAlerts_def collectAlerts_skip [OF n])
qed

theorem allAlerts_only_high_priority_witness:
  "seismicAlert quake \<in> set (allAlerts [unratedQuake, quake] [flood] [heat])
   \<and> level (seismicAlert quake) = JStr ''critical''
   \<and> risk_level heat \<noteq> JStr ''high'' \<and> risk_level heat \<noteq> JStr ''critical''
   \<and> allAlerts [quake] [flood] ([] @ heat # []) = allAlerts [quake] [flood] ([] @ [])
   \<and> risk_level unratedQuake \<noteq> JStr ''high'' \<and> risk_level unratedQuake \<noteq> JStr ''critical''
   \<and> allAlerts ([] @ unratedQuake # [quake]) [flood] [heat]
       = allAlerts ([] @ [quake]) [flood] [heat]"
proof -
  have mem: "seismicAlert quake \<in> set (allAlerts [unratedQuake, quake] [flood] [heat])"
    by (simp add: sample_runs)
  have "level (seismicAlert quake) = JStr ''high'' \<or> level (seismicAlert quake) = JStr ''critical''"
    using allAlerts_only_high_priority
      [of "seismicAlert quake" "[unratedQuake, quake]" "[flood]" "[heat]"] mem
    by blast
  then have lv: "level (seismicAlert quake) = JStr ''critical''"
    by (simp add: sample_level)
  have a: "allAlerts [quake] [flood] ([] @ heat # []) = allAlerts [quake] [flood] ([] @ [])"
    using allAlerts_only_high_priority [of _ "[quake]" "[flood]" _ heat _ _ _ _ "[]" "[]"]
    by (simp add: sample_level)
  have b: "allAlerts ([] @ unratedQuake # [quake]) [flood] [heat]
       = allAlerts ([] @ [quake]) [flood] [heat]"
    using allAlerts_only_high_priority [of _ _ "[flood]" "[heat]" unratedQuake "[]" "[quake]"]
    by (simp add: sample_level)
  show ?thesis
    using mem lv a b by (simp add: sample_level)
qed

text \<open>
  C2, as amended. When every high or critical event of the input has a timestamp that
  is a date, the output is sorted by severity rank ascending (critical 0, high 1) and,
  at equal rank, by time descending: every alert may stand before every later one, and
  in particular each alert before its successor.
\<close>

theorem allAlerts_sorted:
  assumes "\<forall>e \<in> set s \<union> set f \<union> set h. highPriority e \<longrightarrow> timestamp e \<noteq> None"
  shows "successively inOrder (allAlerts s f h) \<and> sorted_wrt inOrder (allAlerts s f h)"
proof -
  have "sorted_wrt (\<lambda>a b. alertKey a \<le> alertKey b) (allAlerts s f h)"
    using allAlerts_dated(1) [OF assms] by (simp add: sorted_map)
  moreover have "inOrder a b"
    if "a \<in> set (allAlerts s f h)" "b \<in> set (allAlerts s f h)" "alertKey a \<le> alertKey b"
    for a b
    using that allAlerts_dated(3) [OF assms] compare_key(2) by blast
  ultimately have "sorted_wrt inOrder (allAlerts s f h)"
    by (rule sorted_wrt_mono_rel [rotated])
  then show ?thesis by (simp add: successively_if_sorted_wrt)
qed

theorem allAlerts_sorted_witness:
  "highPriority quake \<and> timestamp quake \<noteq> None \<and> highPriority flood \<and> timestamp flood \<noteq> None
   \<and> highPriority heatwave \<and> timestamp heatwave \<noteq> None
   \<and> allAlerts [quake] [flood] [heatwave]
       = [heatAlert heatwave, seismicAlert quake, floodAlert flood]
   \<and> successively inOrder [heatAlert heatwave, seismicAlert quake, floodAlert flood]"
  using allAlerts_sorted [of "[quake]" "[flood]" "[heatwave]"]
  by (simp add: sample_priority sample_timestamp sample_runs)

text \<open>
  C2 as stated fails on a record without timestamp: two critical earthquakes, one of
  them undated, both reach the output, and the date of the undated one is an Invalid
  Date, which is neither later than nor equal to any date, so that no order of the two
  alerts satisfies the claim.
\<close>

theorem allAlerts_sorted_counterexample:
  "highPriority quake \<and> highPriority undatedQuake \<and> timestamp undatedQuake = None
   \<and> allAlerts [quake, undatedQuake] [] [] = [seismicAlert quake, seismicAlert undatedQuake]
   \<and> severityRank (seismicAlert quake) = severityRank (seismicAlert undatedQuake)
   \<and> \<not> dateGe (time (seismicAlert quake)) (time (seismicAlert undatedQuake))
   \<and> \<not> dateGe (time (seismicAlert undatedQuake)) (time (seismicAlert quake))
   \<and> \<not> successively inOrder (allAlerts [quake, undatedQuake] [] [])"
  by (simp add: sample_priority sample_timestamp sample_runs sample_rank sample_time inOrder_def)

text \<open>
  C3, as amended. A record with no severity is skipped: the output is what it is
  without the record, wherever the record stands in its list. A record whose severity
  is high or critical is never skipped, whatever else it lacks (a timestamp, the
  coordinates): it adds its own alert to the alerts of the other records, which are all
  still in the output.
\<close>

theorem allAlerts_malformed:
  "(risk_level e = JUndefined \<longrightarrow>
      allAlerts (s1 @ e # s2) f h = allAlerts (s1 @ s2) f h
      \<and> allAlerts s (f1 @ e # f2) h = allAlerts s (f1 @ f2) h
      \<and> allAlerts s f (h1 @ e # h2) = allAlerts s f (h1 @ h2))
   \<and> (highPriority e \<longrightarrow>
      mset (allAlerts (s1 @ e # s2) f h)
        = add_mset (seismicAlert e) (mset (allAlerts (s1 @ s2) f h))
      \<and> mset (allAlerts s (f1 @ e # f2) h)
        = add_mset (floodAlert e) (mset (allAlerts s (f1 @ f2) h))
      \<and> mset (allAlerts s f (h1 @ e # h2))
        = add_mset (heatAlert e) (mset (allAlerts s f (h1 @ h2))))"
proof (intro conjI impI)
  assume "risk_level e = JUndefined"
  then have n: "\<not> highPriority e" by (simp add: highPriority_def)
  show "allAlerts (s1 @ e # s2) f h = allAlerts (s1 @ s2) f h"
    "allAlerts s (f1 @ e # f2) h = allAlerts s (f1 @ f2) h"
    "allAlerts s f (h1 @ e # h2) = allAlerts s f (h1 @ h2)"
    by (simp_all add: allAlerts_def collectAlerts_skip [OF n])
next
  assume p: "highPriority e"
  show "mset (allAlerts (s1 @ e # s2) f h)
        = add_mset (seismicAlert e) (mset (allAlerts (s1 @ s2) f h))"
    "mset (allAlerts s (f1 @ e # f2) h)
        = add_mset (floodAlert e) (mset (allAlerts s (f1 @ f2) h))"
    "mset (allAlerts s f (h1 @ e # h2))
        = add_mset (heatAlert e) (mset (allAlerts s f (h1 @ h2)))"
    by (simp_all add: mset_allAlerts_cons [OF p])
qed

theorem allAlerts_malformed_witness:
  "risk_level unratedQuake = JUndefined
   \<and> allAlerts ([quake] @ unratedQuake # []) [flood] [] = [seismicAlert quake, floodAlert flood]
   \<and> highPriority undatedQuake \<and> malformed undatedQuake
   \<and> mset (allAlerts ([quake] @ undatedQuake # []) [] [])
       = {#seismicAlert undatedQuake, seismicAlert quake#}"
proof -
  have a: "allAlerts ([quake] @ unratedQuake # []) [flood] [] = allAlerts ([quake] @ []) [flood] []"
    using allAlerts_malformed [of unratedQuake "[quake]" "[]" "[flood]" "[]"]
    by (simp add: sample_level)
  have b: "mset (allAlerts ([quake] @ undatedQuake # []) [] [])
        = add_mset (seismicAlert undatedQuake) (mset (allAlerts ([quake] @ []) [] []))"
    using allAlerts_malformed [of undatedQuake "[quake]" "[]" "[]" "[]"]
    by (simp add: sample_priority)
  have c: "allAlerts [quake] [] [] = [seismicAlert quake]"
    by (simp add: sort_defs sample_priority)
  show ?thesis
    using a b by (simp add: sample_level sample_priority sample_malformed sample_runs c)
qed

text \<open>
  C3 as stated fails: a critical earthquake without timestamp and a high flood alert
  without coordinates are malformed records, and each yields an alert.
\<close>

theorem allAlerts_malformed_counterexample:
  "malformed undatedQuake \<and> timestamp undatedQuake = None
   \<and> allAlerts [undatedQuake] [] [] = [seismicAlert undatedQuake]
   \<and> malformed unplacedFlood \<and> latitude unplacedFlood = JUndefined
   \<and> longitude unplacedFlood = JUndefined
   \<and> allAlerts [] [unplacedFlood] [] = [floodAlert unplacedFlood]"
  by (simp add: sample_malformed sample_timestamp sample_runs sample_coordinates)

text \<open>
  C5. A critical seismic event, a high flood event (whatever the two timestamps are,
  so also for a flood later than the earthquake) and a low heat event aggregate to
  exactly the earthquake's alert followed by the flood's alert.
\<close>

theorem allAlerts_scenario:
  assumes "risk_level e = JStr ''critical''" and "risk_level a = JStr ''high''"
    and "risk_level b = JStr ''low''"
  shows "allAlerts [e] [a] [b] = [seismicAlert e, floodAlert a]"
proof -
  have "collectAlerts [e] [a] [b] = [seismicAlert e, floodAlert a]"
    using assms by (simp add: collectAlerts_eq highPriority_def)
  moreover have "sortCompare compareAlerts (floodAlert a) (seismicAlert e) = 1"
    using assms by (simp add: sortCompare_def compareAlerts_def severityRank_def levelOrder_def)
  ultimately show ?thesis
    by (simp add: allAlerts_def arraySort_def countAndMakeRun_def)
qed

theorem allAlerts_scenario_witness:
  "risk_level quake = JStr ''critical'' \<and> risk_level flood = JStr ''high''
   \<and> risk_level heat = JStr ''low''
   \<and> timestamp quake = Some 1000 \<and> timestamp flood = Some 2000 \<and> (1000::int) < 2000
   \<and> allAlerts [quake] [flood] [heat] = [seismicAlert quake, floodAlert flood]"
  using allAlerts_scenario [of quake flood heat]
  by (simp add: sample_level sample_timestamp)

text \<open>
  C6. Each high or critical event has its alert in the output, with the texts of its
  kind: a seismic event the title \<open>M{magnitude} Earthquake\<close> and the details
  \<open>Depth: {depth}km\<close>; a flood event the details \<open>Evacuation Advised\<close> when
  \<open>evacuation_advised\<close> is true (truthy, as the conditional reads it) and
  \<open>Water Level: {water_level}m\<close> otherwise; a heat event the details
  \<open>{temperature}\<degree>C (Feels like {feels_like}\<degree>C)\<close>.
\<close>

theorem allAlerts_texts:
  "(e \<in> set s \<and> highPriority e \<longrightarrow>
      (\<exists>x \<in> set (allAlerts s f h).
         type x = ''seismic'' \<and> level x = risk_level e
         \<and> title x = ''M'' @ toString (magnitude e) @ '' Earthquake''
         \<and> alert_location x = location e \<and> time x = newDate (timestamp e)
         \<and> details x = ''Depth: '' @ toString (depth e) @ ''km''))
   \<and> (a \<in> set f \<and> highPriority a \<longrightarrow>
      (\<exists>x \<in> set (allAlerts s f h).
         type x = ''flood'' \<and> level x = risk_level a
         \<and> title x = ''Flood Warning''
         \<and> alert_location x = region a \<and> time x = newDate (timestamp a)
         \<and> details x = (if truthy (evacuation_advised a) then ''Evacuation Advised''
                        else ''Water Level: '' @ toString (water_level a) @ ''m'')))
   \<and> (b \<in> set h \<and> highPriority b \<longrightarrow>
      (\<exists>x \<in> set (allAlerts s f h).
         type x = ''heat'' \<and> level x = risk_level b
         \<and> title x = ''Heat Wave Alert''
         \<and> alert_location x = region b \<and> time x = newDate (timestamp b)
         \<and> details x = toString (temperature b) @ degree @ ''C (Feels like ''
                        @ toString (feels_like b) @ degree @ ''C)''))"
proof (intro conjI impI)
  assume "e \<in> set s \<and> highPriority e"
  then have "seismicAlert e \<in> set (allAlerts s f h)"
    by (simp add: set_allAlerts set_collectAlerts)
  then show "\<exists>x \<in> set (allAlerts s f h).
         type x = ''seismic'' \<and> level x = risk_level e
         \<and> title x = ''M'' @ toString (magnitude e) @ '' Earthquake''
         \<and> alert_location x = location e \<and> time x = newDate (timestamp e)
         \<and> details x = ''Depth: '' @ toString (depth e) @ ''km''"
    by (rule bexI [rotated]) (simp add: seismicAlert_def)
next
  assume "a \<in> set f \<and> highPriority a"
  then have "floodAlert a \<in> set (allAlerts s f h)"
    by (simp add: set_allAlerts set_collectAlerts)
  then show "\<exists>x \<in> set (allAlerts s f h).
         type x = ''flood'' \<and> level x = risk_level a
         \<and> title x = ''Flood Warning''
         \<and> alert_location x = region a \<and> time x = newDate (timestamp a)
         \<and> details x = (if truthy (evacuation_advised a) then ''Evacuation Advised''
                        else ''Water Level: '' @ toString (water_level a) @ ''m'')"
    by (rule bexI [rotated]) (simp add: floodAlert_def)
next
  assume "b \<in> set h \<and> highPriority b"
  then have "heatAlert b \<in> set (allAlerts s f h)"
    by (simp add: set_allAlerts set_collectAlerts)
  then show "\<exists>x \<in> set (allAlerts s f h).
         type x = ''heat'' \<and> level x = risk_level b
         \<and> title x = ''Heat Wave Alert''
         \<and> alert_location x = region b \<and> time x = newDate (timestamp b)
         \<and> details x = toString (temperature b) @ degree @ ''C (Feels like ''
                        @ toString (feels_like b) @ degree @ ''C)''"
    by (rule bexI [rotated]) (simp add: heatAlert_def)
qed

theorem allAlerts_texts_witness:
  "quake \<in> set [quake] \<and> highPriority quake
   \<and> (\<exists>x \<in> set (allAlerts [quake] [flood, evacuatedFlood] [heatwave]).
         title x = ''M5.6 Earthquake'' \<and> details x = ''Depth: 10km'')
   \<and> flood \<in> set [flood, evacuatedFlood] \<and> highPriority flood
   \<and> (\<exists>x \<in> set (allAlerts [quake] [flood, evacuatedFlood] [heatwave]).
         details x = ''Water Level: 3.2m'')
   \<and> evacuatedFlood \<in> set [flood, evacuatedFlood] \<and> highPriority evacuatedFlood
   \<and> (\<exists>x \<in> set (allAlerts [quake] [flood, evacuatedFlood] [heatwave]).
         details x = ''Evacuation Advised'')
   \<and> heatwave \<in> set [heatwave] \<and> highPriority heatwave
   \<and> (\<exists>x \<in> set (allAlerts [quake] [flood, evacuatedFlood] [heatwave]).
         details x = ''31'' @ [CHR 0xB0] @ ''C (Feels like 33'' @ [CHR 0xB0] @ ''C)'')"
proof -
  let ?out = "allAlerts [quake] [flood, evacuatedFlood] [heatwave]"
  note t1 = allAlerts_texts [of quake "[quake]" "[flood, evacuatedFlood]" "[heatwave]"
      flood heatwave]
  note t2 = allAlerts_texts [of quake "[quake]" "[flood, evacuatedFlood]" "[heatwave]"
      evacuatedFlood heatwave]
  have q: "\<exists>x \<in> set ?out. title x = ''M5.6 Earthquake'' \<and> details x = ''Depth: 10km''"
    using t1 by (auto simp: sample_priority sample_fields)
  have w: "\<exists>x \<in> set ?out. details x = ''Water Level: 3.2m''"
    using t1 by (auto simp: sample_priority sample_fields)
  have v: "\<exists>x \<in> set ?out. details x = ''Evacuation Advised''"
    using t2 by (auto simp: sample_priority sample_fields)
  have c: "\<exists>x \<in> set ?out.
      details x = ''31'' @ [CHR 0xB0] @ ''C (Feels like 33'' @ [CHR 0xB0] @ ''C)''"
    using t1 by (auto simp: sample_priority sample_fields degree_def)
  show ?thesis
    using q w v c by (simp add: sample_priority sample_fields)
qed

text \<open>
  C7, as amended. When every high or critical event of the input has a timestamp that
  is a date, the alerts of the output that have one severity rank and one time stand
  in the order in which they stand in the concatenation of the alerts of the seismic,
  the flood and the heat list: the sort keeps the input order of ties.
\<close>

theorem allAlerts_stable:
  assumes "\<forall>e \<in> set s \<union> set f \<union> set h. highPriority e \<longrightarrow> timestamp e \<noteq> None"
  shows "tied r t (allAlerts s f h)
     = tied r t (map seismicAlert (filter highPriority s)
                 @ map floodAlert (filter highPriority f)
                 @ map heatAlert (filter highPriority h))"
proof -
  have "tied r t (allAlerts s f h) = tied r t (collectAlerts s f h)"
    unfolding tied_key [OF allAlerts_dated(3) [OF assms]]
      tied_key [OF collectAlerts_comparable [OF assms]]
    by (simp add: allAlerts_dated(2) [OF assms] split: option.splits jsdate.splits)
  then show ?thesis by (simp add: collectAlerts_eq)
qed

theorem allAlerts_stable_witness:
  "highPriority quake \<and> timestamp quake \<noteq> None \<and> highPriority flood \<and> timestamp flood \<noteq> None
   \<and> highPriority evacuatedFlood \<and> timestamp evacuatedFlood \<noteq> None
   \<and> highPriority heatwave \<and> timestamp heatwave \<noteq> None
   \<and> floodAlert flood \<noteq> floodAlert evacuatedFlood
   \<and> allAlerts [quake] [flood, evacuatedFlood] [heatwave]
       = [heatAlert heatwave, seismicAlert quake, floodAlert flood, floodAlert evacuatedFlood]
   \<and> tied (Some 1) (DateAt 2000) (allAlerts [quake] [flood, evacuatedFlood] [heatwave])
       = [floodAlert flood, floodAlert evacuatedFlood]
   \<and> allAlerts [quake] [evacuatedFlood, flood] [heatwave]
       = [heatAlert heatwave, seismicAlert quake, floodAlert evacuatedFlood, floodAlert flood]
   \<and> tied (Some 1) (DateAt 2000) (allAlerts [quake] [evacuatedFlood, flood] [heatwave])
       = [floodAlert evacuatedFlood, floodAlert flood]"
proof -
  have a: "tied (Some 1) (DateAt 2000) (allAlerts [quake] [flood, evacuatedFlood] [heatwave])
       = [floodAlert flood, floodAlert evacuatedFlood]"
    using allAlerts_stable
      [of "[quake]" "[flood, evacuatedFlood]" "[heatwave]" "Some 1" "DateAt 2000"]
    by (simp add: tied_def sample_priority sample_fields sample_rank sample_timestamp
        sample_more)
  have b: "tied (Some 1) (DateAt 2000) (allAlerts [quake] [evacuatedFlood, flood] [heatwave])
       = [floodAlert evacuatedFlood, floodAlert flood]"
    using allAlerts_stable
      [of "[quake]" "[evacuatedFlood, flood]" "[heatwave]" "Some 1" "DateAt 2000"]
    by (simp add: tied_def sample_priority sample_fields sample_rank sample_timestamp
        sample_more)
  show ?thesis
    using a b
    by (simp add: sample_priority sample_fields sample_timestamp sample_more sample_distinct
        sample_ties)
qed

text \<open>
  C7 as stated fails once a record has no timestamp. Of six earthquakes, the fourth
  and the sixth are high and of one time, and the third is high and undated. The first
  four are taken as an ascending run, since each comparison in it gives 0 or NaN; the
  sixth is then put by binary search before the first, being later than the first two,
  and so before the fourth: the two tied alerts come out in the reverse of their input
  order.
\<close>

theorem allAlerts_stable_counterexample:
  "timestamp shockC = None \<and> highPriority shockC
   \<and> allAlerts [shockA, shockB, shockC, shockD, shockE, shockF] [] []
       = [seismicAlert shockE, seismicAlert shockF, seismicAlert shockA, seismicAlert shockB,
          seismicAlert shockC, seismicAlert shockD]
   \<and> tied (Some 1) (DateAt 2000)
        (allAlerts [shockA, shockB, shockC, shockD, shockE, shockF] [] [])
       = [seismicAlert shockF, seismicAlert shockD]
   \<and> tied (Some 1) (DateAt 2000)
        (map seismicAlert (filter highPriority [shockA, shockB, shockC, shockD, shockE, shockF])
         @ map floodAlert (filter highPriority [])
         @ map heatAlert (filter highPriority []))
       = [seismicAlert shockD, seismicAlert shockF]
   \<and> seismicAlert shockD \<noteq> seismicAlert shockF"
  by (simp add: sample_shock_run sample_shocks sample_distinct tied_def)

text \<open>
  C9. The output has one alert for each high or critical event of the three lists, as
  a multiset and so in number; nothing is deduplicated: an event that stands in both
  the seismic and the flood list gives two alerts when it is high or critical.
\<close>

theorem allAlerts_length:
  "length (allAlerts s f h)
     = length (filter highPriority s) + length (filter highPriority f)
       + length (filter highPriority h)
   \<and> mset (allAlerts s f h)
     = mset (map seismicAlert (filter highPriority s))
       + mset (map floodAlert (filter highPriority f))
       + mset (map heatAlert (filter highPriority h))
   \<and> length (allAlerts (e # s) (e # f) h)
     = (if highPriority e then 2 else 0) + length (allAlerts s f h)"
  by (simp add: allAlerts_def length_arraySort mset_arraySort collectAlerts_eq)

theorem allAlerts_length_witness:
  "length (allAlerts [quake, unratedQuake] [quake] [heat]) = 2
   \<and> length (allAlerts [quake, quake] [] []) = 2"
  using allAlerts_length [of "[quake, unratedQuake]" "[quake]" "[heat]" quake]
    allAlerts_length [of "[quake, quake]" "[]" "[]" quake]
  by (simp add: sample_priority)

text \<open>
  C10. Run on a heap whose cells at the three input addresses are arrays of events,
  the aggregation returns the address of a new cell that holds the sorted alerts, and
  leaves every cell of the old heap, the three input arrays among them, as it was.
\<close>

theorem allAlertsOnHeap_frame:
  assumes "readEvents h ps = Some s" and "readEvents h pf = Some f"
    and "readEvents h ph = Some e"
  shows "\<exists>h'. allAlertsOnHeap h ps pf ph = Some (length h, h')
    \<and> readAlerts h' (length h) = Some (allAlerts s f e)
    \<and> take (length h) h' = h
    \<and> readEvents h' ps = Some s \<and> readEvents h' pf = Some f \<and> readEvents h' ph = Some e"
proof -
  have "ps < length h" "pf < length h" "ph < length h"
    using assms readEvents_bound by blast+
  then have "readEvents (h @ cs) ps = Some s" "readEvents (h @ cs) pf = Some f"
    "readEvents (h @ cs) ph = Some e" for cs
    using assms by (simp_all add: readEvents_append)
  then show ?thesis
    using allAlertsOnHeap_eq [OF assms] by (simp add: readAlerts_fresh)
qed

theorem allAlertsOnHeap_frame_witness:
  "readEvents [EventArray [quake], EventArray [flood], EventArray [heat]] 0 = Some [quake]
   \<and> readEvents [EventArray [quake], EventArray [flood], EventArray [heat]] 1 = Some [flood]
   \<and> readEvents [EventArray [quake], EventArray [flood], EventArray [heat]] 2 = Some [heat]
   \<and> (\<exists>h'. allAlertsOnHeap [EventArray [quake], EventArray [flood], EventArray [heat]] 0 1 2
               = Some (3, h')
         \<and> readAlerts h' 3 = Some [seismicAlert quake, floodAlert flood]
         \<and> take 3 h' = [EventArray [quake], EventArray [flood], EventArray [heat]])"
proof -
  let ?h = "[EventArray [quake], EventArray [flood], EventArray [heat]]"
  have r: "readEvents ?h 0 = Some [quake]" "readEvents ?h 1 = Some [flood]"
    "readEvents ?h 2 = Some [heat]"
    by (simp_all add: readEvents_def)
  have "\<exists>h'. allAlertsOnHeap ?h 0 1 2 = Some (3, h')
         \<and> readAlerts h' 3 = Some [seismicAlert quake, floodAlert flood]
         \<and> take 3 h' = ?h"
    using allAlertsOnHeap_frame [OF r] by (auto simp: sample_runs numeral_3_eq_3)
  then show ?thesis using r by blast
qed

section \<open>Claims about the proximity search\<close>

text \<open>
  C4. For a limit \<open>k\<close> that is not negative, the result of \<open>nearest\<close> has
  \<open>min(k, |H|)\<close> hospitals and is sorted ascending by the great-circle distance from
  the reference point: each hospital is at most as far as its successor.
\<close>

theorem nearest_length_sorted:
  assumes "0 \<le> k"
  shows "int (length (nearest lat lon H k)) = min k (int (length H))
    \<and> successively (\<lambda>A B. distance lat lon A \<le> distance lat lon B) (nearest lat lon H k)
    \<and> sorted (map (distance lat lon) (nearest lat lon H k))"
proof (cases "k = 0")
  case True
  then show ?thesis by (simp add: nearest_def)
next
  case False
  then have pos: "\<not> k \<le> 0" using assms by simp
  have "length (nearest lat lon H k) = min (nat k) (length H)"
    using pos by (simp add: nearest_def)
  then have len: "int (length (nearest lat lon H k)) = min k (int (length H))"
    using assms by linarith
  have "sorted (map (distance lat lon) (sort_key (distance lat lon) H))"
    by simp
  then have "sorted (take (nat k) (map (distance lat lon) (sort_key (distance lat lon) H)))"
    by (rule sorted_wrt_take)
  then have srt: "sorted (map (distance lat lon) (nearest lat lon H k))"
    using pos by (simp add: nearest_def take_map)
  then have "sorted_wrt (\<lambda>A B. distance lat lon A \<le> distance lat lon B) (nearest lat lon H k)"
    by (simp add: sorted_map)
  then have "successively (\<lambda>A B. distance lat lon A \<le> distance lat lon B) (nearest lat lon H k)"
    by (rule successively_if_sorted_wrt)
  then show ?thesis using len srt by simp
qed

theorem nearest_length_sorted_witness:
  "(0::int) \<le> 2
   \<and> length (nearest 41.9 12.5 [clinic ''A'' 42 12, clinic ''B'' 45.4 9.2, clinic ''C'' 41.9 12.5] 2) = 2
   \<and> sorted (map (distance 41.9 12.5)
        (nearest 41.9 12.5 [clinic ''A'' 42 12, clinic ''B'' 45.4 9.2, clinic ''C'' 41.9 12.5] 2))"
  using nearest_length_sorted [of 2 "41.9" "12.5"
      "[clinic ''A'' 42 12, clinic ''B'' 45.4 9.2, clinic ''C'' 41.9 12.5]"]
  by simp

text \<open>
  C8. For every limit \<open>k \<le> 0\<close>, so for \<open>k = 0\<close>, \<open>nearest\<close> returns the empty list,
  and for the empty list of hospitals it returns the empty list.
\<close>

theorem nearest_empty:
  "(k \<le> 0 \<longrightarrow> nearest lat lon H k = []) \<and> nearest lat lon [] k = []"
  by (simp add: nearest_def)

theorem nearest_empty_witness:
  "(0::int) \<le> 0 \<and> nearest 41.9 12.5 [clinic ''A'' 42 12, clinic ''B'' 45.4 9.2] 0 = []
   \<and> (-3::int) \<le> 0 \<and> nearest 41.9 12.5 [clinic ''A'' 42 12, clinic ''B'' 45.4 9.2] (-3) = []
   \<and> nearest 41.9 12.5 [] 5 = []"
  using nearest_empty [of 0 "41.9" "12.5" "[clinic ''A'' 42 12, clinic ''B'' 45.4 9.2]"]
    nearest_empty [of "-3" "41.9" "12.5" "[clinic ''A'' 42 12, clinic ''B'' 45.4 9.2]"]
    nearest_empty [of 5 "41.9" "12.5" "[]"]
  by simp

end
